theory Spec2Isabelle
  imports Main "HOL-Library.Word"
begin

section \<open>The registry contract \<open>XineteDecentralizedStorage\<close>\<close>

text \<open>
  The contract of \<^verbatim>\<open>contracts/XineteDecentralizedStorage.sol\<close> is embedded with
  explicit state passing. A Solidity \<^verbatim>\<open>mapping\<close> is a total function that yields the
  default value of its value type at every key never written (and again after
  \<^verbatim>\<open>delete\<close>): the empty string, the zero address, the empty array, the all-default
  struct. An \<^verbatim>\<open>address\<close> is a 160-bit word, a \<^verbatim>\<open>uint256\<close> a 256-bit word, a
  \<^verbatim>\<open>string\<close> a list of bytes.

  The contract compares strings through \<^verbatim>\<open>keccak256(bytes(a)) == keccak256(bytes(b))\<close>.
  The embedding reads such a comparison as equality of the two strings, that is, keccak256 is
  taken to be free of collisions on the strings the contract sees.
\<close>

type_synonym address = "160 word"
type_synonym uint256 = "256 word"

record MetadataInfo =
  cid :: string
  hash :: string
  timestamp :: uint256
  nftName :: string
  imageURI :: string

text \<open>The default value of the struct: what a mapping holds at an unwritten or deleted key.\<close>

definition emptyInfo :: MetadataInfo where
  "emptyInfo = \<lparr>cid = [], hash = [], timestamp = 0, nftName = [], imageURI = []\<rparr>"

record storage =
  userMetadataCIDs :: "address \<Rightarrow> string list"
  hashToCID :: "string \<Rightarrow> string"
  cidToOwner :: "string \<Rightarrow> address"
  cidToMetadataInfo :: "string \<Rightarrow> MetadataInfo"

text \<open>The storage of the freshly deployed contract.\<close>

definition initial_storage :: storage where
  "initial_storage =
     \<lparr>userMetadataCIDs = (\<lambda>_. []), hashToCID = (\<lambda>_. []),
      cidToOwner = (\<lambda>_. 0), cidToMetadataInfo = (\<lambda>_. emptyInfo)\<rparr>"

text \<open>The revert reasons of the contract, one constructor per \<^verbatim>\<open>require\<close> message.\<close>

datatype revert =
    CID_cannot_be_empty
  | Hash_cannot_be_empty
  | CID_already_registered
  | Hash_already_exists
  | Not_the_owner_of_this_metadata
  | New_CID_cannot_be_empty
  | New_CID_already_registered
  | New_hash_already_exists
  | Metadata_does_not_exist

subsection \<open>storeMetadata\<close>

text \<open>
  The first two arguments of every mutating function are \<^verbatim>\<open>msg.sender\<close> and
  \<^verbatim>\<open>block.timestamp\<close>. The four \<^verbatim>\<open>require\<close>s are checked in the order of the source,
  before any write. Events are not part of the storage and are left out.
\<close>

definition storeMetadata ::
  "address \<Rightarrow> uint256 \<Rightarrow> string \<Rightarrow> string \<Rightarrow> string \<Rightarrow> string \<Rightarrow> storage \<Rightarrow> revert + storage" where
  "storeMetadata sender now c h name uri s =
     (if \<not> 0 < length c then Inl CID_cannot_be_empty
      else if \<not> 0 < length h then Inl Hash_cannot_be_empty
      else if \<not> cidToOwner s c = 0 then Inl CID_already_registered
      else if \<not> length (hashToCID s h) = 0 then Inl Hash_already_exists
      else Inr (s\<lparr>userMetadataCIDs := (userMetadataCIDs s)(sender := userMetadataCIDs s sender @ [c]),
                  hashToCID := (hashToCID s)(h := c),
                  cidToOwner := (cidToOwner s)(c := sender),
                  cidToMetadataInfo := (cidToMetadataInfo s)
                    (c := \<lparr>cid = c, hash = h, timestamp = now, nftName = name, imageURI = uri\<rparr>)\<rparr>))"

subsection \<open>updateMetadata\<close>

text \<open>
  The loop that replaces the old identifier in the caller's array: it walks the indices
  upwards, overwrites the first element equal to \<open>oldCid\<close> and breaks. When no element
  matches, the array is left as it is.
\<close>

function replaceLoop :: "nat \<Rightarrow> string \<Rightarrow> string \<Rightarrow> string list \<Rightarrow> string list" where
  "replaceLoop i oldCid newCid userCIDs =
     (if i < length userCIDs then
        (if userCIDs ! i = oldCid then userCIDs[i := newCid]
         else replaceLoop (i + 1) oldCid newCid userCIDs)
      else userCIDs)"
  by pat_completeness auto
termination
  by (relation "measure (\<lambda>(i, oldCid, newCid, userCIDs). length userCIDs - i)") auto

declare replaceLoop.simps [simp del]

text \<open>
  The writes follow the source's order: the array, the deletion of the old hash entry, the
  ownership entries, the new hash entry, the record entries. \<open>oldHash\<close> is read from the
  record of \<open>oldCid\<close> before that record is deleted.
\<close>

definition updateMetadata ::
  "address \<Rightarrow> uint256 \<Rightarrow> string \<Rightarrow> string \<Rightarrow> string \<Rightarrow> string \<Rightarrow> string \<Rightarrow> storage
     \<Rightarrow> revert + storage" where
  "updateMetadata sender now oldCid newCid h name uri s =
     (if \<not> cidToOwner s oldCid = sender then Inl Not_the_owner_of_this_metadata
      else if \<not> 0 < length newCid then Inl New_CID_cannot_be_empty
      else if \<not> 0 < length h then Inl Hash_cannot_be_empty
      else if \<not> cidToOwner s newCid = 0 then Inl New_CID_already_registered
      else if \<not> length (hashToCID s h) = 0 then Inl New_hash_already_exists
      else
        let oldHash = hash (cidToMetadataInfo s oldCid) in
        Inr (s\<lparr>userMetadataCIDs := (userMetadataCIDs s)
                    (sender := replaceLoop 0 oldCid newCid (userMetadataCIDs s sender)),
                hashToCID := (hashToCID s)(oldHash := [], h := newCid),
                cidToOwner := (cidToOwner s)(oldCid := 0, newCid := sender),
                cidToMetadataInfo := (cidToMetadataInfo s)
                    (oldCid := emptyInfo,
                     newCid := \<lparr>cid = newCid, hash = h, timestamp = now,
                                 nftName = name, imageURI = uri\<rparr>)\<rparr>))"

subsection \<open>removeMetadata\<close>

text \<open>
  The removal loop: at the first element equal to \<open>c\<close> it copies the last element of the
  array into that position, pops the last element and breaks.
\<close>

function removeLoop :: "nat \<Rightarrow> string \<Rightarrow> string list \<Rightarrow> string list" where
  "removeLoop i c userCIDs =
     (if i < length userCIDs then
        (if userCIDs ! i = c
         then butlast (userCIDs[i := userCIDs ! (length userCIDs - 1)])
         else removeLoop (i + 1) c userCIDs)
      else userCIDs)"
  by pat_completeness auto
termination
  by (relation "measure (\<lambda>(i, c, userCIDs). length userCIDs - i)") auto

declare removeLoop.simps [simp del]

definition removeMetadata :: "address \<Rightarrow> string \<Rightarrow> storage \<Rightarrow> revert + storage" where
  "removeMetadata sender c s =
     (if \<not> cidToOwner s c = sender then Inl Not_the_owner_of_this_metadata
      else
        let h = hash (cidToMetadataInfo s c) in
        Inr (s\<lparr>userMetadataCIDs := (userMetadataCIDs s)
                    (sender := removeLoop 0 c (userMetadataCIDs s sender)),
                hashToCID := (hashToCID s)(h := []),
                cidToOwner := (cidToOwner s)(c := 0),
                cidToMetadataInfo := (cidToMetadataInfo s)(c := emptyInfo)\<rparr>))"

subsection \<open>The view functions\<close>

definition getCIDByHash :: "string \<Rightarrow> storage \<Rightarrow> string" where
  "getCIDByHash h s = hashToCID s h"

definition getUserMetadataCIDs :: "address \<Rightarrow> storage \<Rightarrow> string list" where
  "getUserMetadataCIDs user s = userMetadataCIDs s user"

definition getMetadataOwner :: "string \<Rightarrow> storage \<Rightarrow> address" where
  "getMetadataOwner c s = cidToOwner s c"

definition getMetadataInfo :: "string \<Rightarrow> storage \<Rightarrow> revert + MetadataInfo" where
  "getMetadataInfo c s =
     (if \<not> cidToOwner s c \<noteq> 0 then Inl Metadata_does_not_exist
      else Inr (cidToMetadataInfo s c))"

definition verifyMetadata :: "string \<Rightarrow> string \<Rightarrow> storage \<Rightarrow> bool" where
  "verifyMetadata c h s = (cidToOwner s c \<noteq> 0 \<and> hashToCID s h = c)"

subsection \<open>Transactions on the ledger\<close>

text \<open>
  A transaction carries its sender, the timestamp of its block and the call. A call that
  reverts leaves the storage as it was before the transaction; a call that returns commits
  its writes. The ledger runs the transactions one after the other from the storage of
  the deployed contract.
\<close>

datatype call =
    StoreMetadata string string string string
  | UpdateMetadata string string string string string
  | RemoveMetadata string

datatype tx = Tx address uint256 call

fun tx_sender :: "tx \<Rightarrow> address" where
  "tx_sender (Tx sender now cl) = sender"

fun execute :: "tx \<Rightarrow> storage \<Rightarrow> revert + storage" where
  "execute (Tx sender now (StoreMetadata c h name uri)) s = storeMetadata sender now c h name uri s"
| "execute (Tx sender now (UpdateMetadata oldCid newCid h name uri)) s =
     updateMetadata sender now oldCid newCid h name uri s"
| "execute (Tx sender now (RemoveMetadata c)) s = removeMetadata sender c s"

definition transact :: "storage \<Rightarrow> tx \<Rightarrow> storage" where
  "transact s t = (case execute t s of Inl e \<Rightarrow> s | Inr s' \<Rightarrow> s')"

definition ledger :: "tx list \<Rightarrow> storage" where
  "ledger txs = foldl transact initial_storage txs"

text \<open>
  The storages reachable from the deployed contract by successful transactions. The sender
  of a transaction is an account that signed it, which the zero address never is.
\<close>

inductive reachable :: "storage \<Rightarrow> bool" where
  reachable_init: "reachable initial_storage"
| reachable_step: "reachable s \<Longrightarrow> tx_sender t \<noteq> 0 \<Longrightarrow> execute t s = Inr s' \<Longrightarrow> reachable s'"

subsection \<open>Error kinds\<close>

text \<open>
  Modelled from the spec: the mapping of the ledger's revert reasons to the error kinds of
  the specification (section 7), which no source file implements. The emptiness checks are
  validation errors, the uniqueness checks conflicts, the ownership check an authorization
  error, and the existence check of \<open>getMetadataInfo\<close> a not-found error.
\<close>

datatype error_kind = ValidationError | ConflictError | AuthorizationError | NotFoundError

fun kind_of :: "revert \<Rightarrow> error_kind" where
  "kind_of CID_cannot_be_empty = ValidationError"
| "kind_of Hash_cannot_be_empty = ValidationError"
| "kind_of New_CID_cannot_be_empty = ValidationError"
| "kind_of CID_already_registered = ConflictError"
| "kind_of Hash_already_exists = ConflictError"
| "kind_of New_CID_already_registered = ConflictError"
| "kind_of New_hash_already_exists = ConflictError"
| "kind_of Not_the_owner_of_this_metadata = AuthorizationError"
| "kind_of Metadata_does_not_exist = NotFoundError"

subsection \<open>The consistency of the three indices\<close>

text \<open>
  The properties that the four mappings keep together: the array of a user holds exactly
  the identifiers that user owns, without repetition; the zero address owns nothing; a
  record is stored exactly under the owned identifiers; and \<open>hashToCID\<close> and the stored
  hashes point at each other.
\<close>

definition registry_inv :: "storage \<Rightarrow> bool" where
  "registry_inv s \<longleftrightarrow>
     (\<forall>u c. c \<in> set (userMetadataCIDs s u) \<longrightarrow> cidToOwner s c = u \<and> u \<noteq> 0) \<and>
     (\<forall>u. distinct (userMetadataCIDs s u)) \<and>
     (\<forall>c. cidToOwner s c \<noteq> 0 \<longrightarrow> c \<noteq> [] \<and> c \<in> set (userMetadataCIDs s (cidToOwner s c))) \<and>
     (\<forall>c. cidToOwner s c = 0 \<longrightarrow> cidToMetadataInfo s c = emptyInfo) \<and>
     (\<forall>c. cidToOwner s c \<noteq> 0 \<longrightarrow> cid (cidToMetadataInfo s c) = c) \<and>
     (\<forall>h. hashToCID s h \<noteq> [] \<longrightarrow>
          cidToOwner s (hashToCID s h) \<noteq> 0 \<and> hash (cidToMetadataInfo s (hashToCID s h)) = h) \<and>
     (\<forall>c. cidToOwner s c \<noteq> 0 \<longrightarrow> hashToCID s (hash (cidToMetadataInfo s c)) = c)"

section \<open>The upload path of the IPFS service\<close>

text \<open>
  \<open>uploadFileToIPFS\<close> as listed in \<^verbatim>\<open>DECENTRALIZED.md\<close>. The IPFS node is an external
  collaborator: the client is a pair of functions that either return or throw, and the
  module-level \<^verbatim>\<open>ipfs\<close> handle is \<open>None\<close> until it is initialised. A thrown JavaScript
  error is the left summand of the result. The lines written to the console are returned
  beside the result; the progress callback only reports and is left out.
\<close>

datatype js_error = Error string

fun message :: "js_error \<Rightarrow> string" where
  "message (Error m) = m"

record js_file =
  file_name :: string
  file_size :: nat
  arrayBuffer :: "js_error + 8 word list"

record add_result =
  result_cid :: string
  result_path :: string
  result_size :: nat

record ipfs_client =
  ipfs_add :: "string \<Rightarrow> 8 word list \<Rightarrow> bool \<Rightarrow> js_error + add_result"
  ipfs_pin_add :: "string \<Rightarrow> js_error + unit"

text \<open>
  The object the function returns. Its fields are \<^verbatim>\<open>cid\<close>, \<^verbatim>\<open>path\<close>, \<^verbatim>\<open>size\<close>,
  \<^verbatim>\<open>gateway\<close> and \<^verbatim>\<open>pinned\<close> in the source; they carry a prefix here because \<open>cid\<close>
  is a field of \<open>MetadataInfo\<close> and \<open>size\<close> a constant of the library.
\<close>

record upload_result =
  ret_cid :: string
  ret_path :: string
  ret_size :: nat
  ret_gateway :: string
  ret_pinned :: bool

datatype console_line = Console_log string | Console_warn string | Console_error string

definition uploadFileToIPFS ::
  "ipfs_client option \<Rightarrow> string \<Rightarrow> bool \<Rightarrow> js_file
     \<Rightarrow> console_line list \<times> (js_error + upload_result)" where
  "uploadFileToIPFS ipfs ipfsGateway isProd file =
     (case ipfs of
        None \<Rightarrow>
          ([], Inl (Error (if isProd
             then ''IPFS client not initialized. For production environments, ensure you have access to an IPFS node or try running your own node.''
             else ''IPFS client not initialized. Call initializeIPFS first.'')))
      | Some client \<Rightarrow>
          (case arrayBuffer file of
             Inl error \<Rightarrow> ([Console_error ''Error uploading file to IPFS:''], Inl error)
           | Inr buffer \<Rightarrow>
               (case ipfs_add client (file_name file) buffer True of
                  Inl error \<Rightarrow> ([Console_error ''Error uploading file to IPFS:''], Inl error)
                | Inr result \<Rightarrow>
                    ((case ipfs_pin_add client (result_cid result) of
                        Inr ack \<Rightarrow>
                          [Console_log (''Successfully pinned file with CID: '' @ result_cid result)]
                      | Inl pinError \<Rightarrow>
                          [Console_warn (''Warning: Could not explicitly pin the file: ''
                                           @ message pinError)]),
                     Inr \<lparr>ret_cid = result_cid result,
                          ret_path = result_path result,
                          ret_size = result_size result,
                          ret_gateway = ipfsGateway @ ''/'' @ result_cid result,
                          ret_pinned = True\<rparr>))))"

text \<open>
  A content store that accepts every upload and refuses every explicit pin request, and a
  three-byte file, for the concrete scenario of the specification.
\<close>

definition refusing_pins :: ipfs_client where
  "refusing_pins =
     \<lparr>ipfs_add = (\<lambda>path content pin.
         Inr \<lparr>result_cid = ''QmFile'', result_path = path, result_size = length content\<rparr>),
      ipfs_pin_add = (\<lambda>c. Inl (Error ''pin refused''))\<rparr>"

definition three_bytes :: js_file where
  "three_bytes = \<lparr>file_name = ''a.png'', file_size = 3, arrayBuffer = Inr [1, 2, 3]\<rparr>"

section \<open>Properties of the two array loops\<close>

lemma replaceLoop_cases:
  "(replaceLoop i oldCid newCid xs = xs \<and> (\<forall>j. i \<le> j \<and> j < length xs \<longrightarrow> xs ! j \<noteq> oldCid))
   \<or> (\<exists>k. i \<le> k \<and> k < length xs \<and> xs ! k = oldCid \<and> (\<forall>j. i \<le> j \<and> j < k \<longrightarrow> xs ! j \<noteq> oldCid)
          \<and> replaceLoop i oldCid newCid xs = xs[k := newCid])"
proof (induction i oldCid newCid xs rule: replaceLoop.induct)
  case (1 i oldCid newCid userCIDs)
  show ?case
  proof (cases "i < length userCIDs")
    case False
    then show ?thesis by (auto simp: replaceLoop.simps)
  next
    case inb: True
    show ?thesis
    proof (cases "userCIDs ! i = oldCid")
      case True
      with inb have "replaceLoop i oldCid newCid userCIDs = userCIDs[i := newCid]"
        by (simp add: replaceLoop.simps)
      with inb True show ?thesis by auto
    next
      case False
      with inb have eq: "replaceLoop i oldCid newCid userCIDs = replaceLoop (i + 1) oldCid newCid userCIDs"
        by (simp add: replaceLoop.simps)
      from "1.IH"[OF inb False] show ?thesis
      proof
        assume a: "replaceLoop (i + 1) oldCid newCid userCIDs = userCIDs \<and>
           (\<forall>j. i + 1 \<le> j \<and> j < length userCIDs \<longrightarrow> userCIDs ! j \<noteq> oldCid)"
        have "\<forall>j. i \<le> j \<and> j < length userCIDs \<longrightarrow> userCIDs ! j \<noteq> oldCid"
        proof (intro allI impI)
          fix j assume "i \<le> j \<and> j < length userCIDs"
          then show "userCIDs ! j \<noteq> oldCid" using a False by (cases "j = i") auto
        qed
        with a eq show ?thesis by simp
      next
        assume "\<exists>k. i + 1 \<le> k \<and> k < length userCIDs \<and> userCIDs ! k = oldCid \<and>
           (\<forall>j. i + 1 \<le> j \<and> j < k \<longrightarrow> userCIDs ! j \<noteq> oldCid) \<and>
           replaceLoop (i + 1) oldCid newCid userCIDs = userCIDs[k := newCid]"
        then obtain k where k: "i + 1 \<le> k" "k < length userCIDs" "userCIDs ! k = oldCid"
           "\<forall>j. i + 1 \<le> j \<and> j < k \<longrightarrow> userCIDs ! j \<noteq> oldCid"
           "replaceLoop (i + 1) oldCid newCid userCIDs = userCIDs[k := newCid]" by blast
        have "\<forall>j. i \<le> j \<and> j < k \<longrightarrow> userCIDs ! j \<noteq> oldCid"
        proof (intro allI impI)
          fix j assume "i \<le> j \<and> j < k"
          then show "userCIDs ! j \<noteq> oldCid" using k(4) False by (cases "j = i") auto
        qed
        with k eq show ?thesis by (intro disjI2 exI[of _ k]) simp
      qed
    qed
  qed
qed

lemma replaceLoop_first:
  assumes "oldCid \<in> set xs"
  shows "\<exists>k < length xs. xs ! k = oldCid \<and> (\<forall>j < k. xs ! j \<noteq> oldCid)
           \<and> replaceLoop 0 oldCid newCid xs = xs[k := newCid]"
proof -
  from assms obtain m where "m < length xs" "xs ! m = oldCid" by (auto simp: in_set_conv_nth)
  with replaceLoop_cases[of 0 oldCid newCid xs] show ?thesis by auto
qed

lemma replaceLoop_absent:
  assumes "oldCid \<notin> set xs"
  shows "replaceLoop 0 oldCid newCid xs = xs"
  using replaceLoop_cases[of 0 oldCid newCid xs] assms by (auto simp: in_set_conv_nth)

lemma removeLoop_cases:
  "(removeLoop i c xs = xs \<and> (\<forall>j. i \<le> j \<and> j < length xs \<longrightarrow> xs ! j \<noteq> c))
   \<or> (\<exists>k. i \<le> k \<and> k < length xs \<and> xs ! k = c \<and> (\<forall>j. i \<le> j \<and> j < k \<longrightarrow> xs ! j \<noteq> c)
          \<and> removeLoop i c xs = butlast (xs[k := xs ! (length xs - 1)]))"
proof (induction i c xs rule: removeLoop.induct)
  case (1 i c userCIDs)
  show ?case
  proof (cases "i < length userCIDs")
    case False
    then show ?thesis by (auto simp: removeLoop.simps)
  next
    case inb: True
    show ?thesis
    proof (cases "userCIDs ! i = c")
      case True
      with inb have "removeLoop i c userCIDs = butlast (userCIDs[i := userCIDs ! (length userCIDs - 1)])"
        by (simp add: removeLoop.simps)
      with inb True show ?thesis by auto
    next
      case False
      with inb have eq: "removeLoop i c userCIDs = removeLoop (i + 1) c userCIDs"
        by (simp add: removeLoop.simps)
      from "1.IH"[OF inb False] show ?thesis
      proof
        assume a: "removeLoop (i + 1) c userCIDs = userCIDs \<and>
           (\<forall>j. i + 1 \<le> j \<and> j < length userCIDs \<longrightarrow> userCIDs ! j \<noteq> c)"
        have "\<forall>j. i \<le> j \<and> j < length userCIDs \<longrightarrow> userCIDs ! j \<noteq> c"
        proof (intro allI impI)
          fix j assume "i \<le> j \<and> j < length userCIDs"
          then show "userCIDs ! j \<noteq> c" using a False by (cases "j = i") auto
        qed
        with a eq show ?thesis by simp
      next
        assume "\<exists>k. i + 1 \<le> k \<and> k < length userCIDs \<and> userCIDs ! k = c \<and>
           (\<forall>j. i + 1 \<le> j \<and> j < k \<longrightarrow> userCIDs ! j \<noteq> c) \<and>
           removeLoop (i + 1) c userCIDs = butlast (userCIDs[k := userCIDs ! (length userCIDs - 1)])"
        then obtain k where k: "i + 1 \<le> k" "k < length userCIDs" "userCIDs ! k = c"
           "\<forall>j. i + 1 \<le> j \<and> j < k \<longrightarrow> userCIDs ! j \<noteq> c"
           "removeLoop (i + 1) c userCIDs = butlast (userCIDs[k := userCIDs ! (length userCIDs - 1)])" by blast
        have "\<forall>j. i \<le> j \<and> j < k \<longrightarrow> userCIDs ! j \<noteq> c"
        proof (intro allI impI)
          fix j assume "i \<le> j \<and> j < k"
          then show "userCIDs ! j \<noteq> c" using k(4) False by (cases "j = i") auto
        qed
        with k eq show ?thesis by (intro disjI2 exI[of _ k]) simp
      qed
    qed
  qed
qed

lemma removeLoop_first:
  assumes "c \<in> set xs"
  shows "\<exists>k < length xs. xs ! k = c \<and> (\<forall>j < k. xs ! j \<noteq> c)
           \<and> removeLoop 0 c xs = butlast (xs[k := xs ! (length xs - 1)])"
proof -
  from assms obtain m where "m < length xs" "xs ! m = c" by (auto simp: in_set_conv_nth)
  with removeLoop_cases[of 0 c xs] show ?thesis by auto
qed

lemma removeLoop_absent:
  assumes "c \<notin> set xs"
  shows "removeLoop 0 c xs = xs"
  using removeLoop_cases[of 0 c xs] assms by (auto simp: in_set_conv_nth)

lemma swap_remove_set:
  assumes "distinct xs" "k < length xs"
  shows "set (butlast (xs[k := xs ! (length xs - 1)])) = set xs - {xs ! k}
         \<and> distinct (butlast (xs[k := xs ! (length xs - 1)]))"
proof -
  from assms have ne: "xs \<noteq> []" by auto
  then have l: "xs ! (length xs - 1) = last xs" by (simp add: last_conv_nth)
  from ne have xs: "xs = butlast xs @ [last xs]" by simp
  have d: "distinct (butlast xs)" "last xs \<notin> set (butlast xs)"
    using assms(1) xs by (metis distinct_butlast, metis distinct_append disjoint_iff list.set_intros(1) xs assms(1))
  have s: "set xs = insert (last xs) (set (butlast xs))"
    using xs by (metis Un_insert_right append_Nil2 list.simps(15) set_append)
  show ?thesis
  proof (cases "k = length xs - 1")
    case True
    then have "xs[k := xs ! (length xs - 1)] = xs" by simp
    moreover have "xs ! k = last xs" using True l by simp
    ultimately show ?thesis using d s by auto
  next
    case False
    with assms(2) have kb: "k < length (butlast xs)" by simp
    have e: "butlast (xs[k := xs ! (length xs - 1)]) = (butlast xs)[k := last xs]"
      using False assms(2) l by (simp add: butlast_list_update)
    have n: "butlast xs ! k = xs ! k" using kb by (simp add: nth_butlast)
    have "set ((butlast xs)[k := last xs]) = insert (last xs) (set (butlast xs) - {butlast xs ! k})"
      using d(1) kb by (rule set_update_distinct)
    moreover have "distinct ((butlast xs)[k := last xs])"
      using d by (simp add: distinct_list_update)
    moreover have "xs ! k \<noteq> last xs"
      using d(2) kb n by (metis nth_mem)
    ultimately show ?thesis using e n s d(2) by auto
  qed
qed

section \<open>The indices stay consistent\<close>

lemma replaceLoop_set:
  assumes "distinct xs" "oldCid \<in> set xs" "newCid \<notin> set xs"
  shows "set (replaceLoop 0 oldCid newCid xs) = insert newCid (set xs - {oldCid})"
    and "distinct (replaceLoop 0 oldCid newCid xs)"
proof -
  from replaceLoop_first[OF assms(2), of newCid] obtain k where
    k: "k < length xs" "xs ! k = oldCid" "replaceLoop 0 oldCid newCid xs = xs[k := newCid]"
    by blast
  show "set (replaceLoop 0 oldCid newCid xs) = insert newCid (set xs - {oldCid})"
    using set_update_distinct[OF assms(1) k(1), of newCid] k by simp
  show "distinct (replaceLoop 0 oldCid newCid xs)"
    using assms k by (simp add: distinct_list_update)
qed

lemma removeLoop_set:
  assumes "distinct xs" "c \<in> set xs"
  shows "set (removeLoop 0 c xs) = set xs - {c}"
    and "distinct (removeLoop 0 c xs)"
proof -
  from removeLoop_first[OF assms(2)] obtain k where
    k: "k < length xs" "xs ! k = c" "removeLoop 0 c xs = butlast (xs[k := xs ! (length xs - 1)])"
    by blast
  from swap_remove_set[OF assms(1) k(1)] k
  show "set (removeLoop 0 c xs) = set xs - {c}" and "distinct (removeLoop 0 c xs)"
    by simp_all
qed

lemma registry_inv_initial: "registry_inv initial_storage"
  by (simp add: registry_inv_def initial_storage_def)

lemma registry_inv_store:
  assumes inv: "registry_inv s" and nz: "sender \<noteq> 0"
    and ex: "storeMetadata sender now c h name uri s = Inr s'"
  shows "registry_inv s'"
proof -
  from ex have pre: "c \<noteq> []" "h \<noteq> []" "cidToOwner s c = 0" "hashToCID s h = []"
    by (auto simp: storeMetadata_def split: if_splits)
  from ex pre have s': "s' = s\<lparr>userMetadataCIDs := (userMetadataCIDs s)(sender := userMetadataCIDs s sender @ [c]),
                  hashToCID := (hashToCID s)(h := c),
                  cidToOwner := (cidToOwner s)(c := sender),
                  cidToMetadataInfo := (cidToMetadataInfo s)
                    (c := \<lparr>cid = c, hash = h, timestamp = now, nftName = name, imageURI = uri\<rparr>)\<rparr>"
    by (simp add: storeMetadata_def)
  from inv have
    i1: "\<And>u x. x \<in> set (userMetadataCIDs s u) \<Longrightarrow> cidToOwner s x = u \<and> u \<noteq> 0" and
    i2: "\<And>u. distinct (userMetadataCIDs s u)" and
    i3: "\<And>x. cidToOwner s x \<noteq> 0 \<Longrightarrow> x \<noteq> [] \<and> x \<in> set (userMetadataCIDs s (cidToOwner s x))" and
    i4: "\<And>x. cidToOwner s x = 0 \<Longrightarrow> cidToMetadataInfo s x = emptyInfo" and
    i7: "\<And>x. cidToOwner s x \<noteq> 0 \<Longrightarrow> cid (cidToMetadataInfo s x) = x" and
    i5: "\<And>k. hashToCID s k \<noteq> [] \<Longrightarrow>
          cidToOwner s (hashToCID s k) \<noteq> 0 \<and> hash (cidToMetadataInfo s (hashToCID s k)) = k" and
    i6: "\<And>x. cidToOwner s x \<noteq> 0 \<Longrightarrow> hashToCID s (hash (cidToMetadataInfo s x)) = x"
    unfolding registry_inv_def by blast+
  have notin: "\<And>u. c \<notin> set (userMetadataCIDs s u)"
    using i1 pre(3) by blast
  have c1: "\<forall>u x. x \<in> set (userMetadataCIDs s' u) \<longrightarrow> cidToOwner s' x = u \<and> u \<noteq> 0"
    using i1 nz notin by (auto simp: s')
  have c2: "\<forall>u. distinct (userMetadataCIDs s' u)"
    using i2 notin by (simp add: s')
  have c3: "\<forall>x. cidToOwner s' x \<noteq> 0 \<longrightarrow> x \<noteq> [] \<and> x \<in> set (userMetadataCIDs s' (cidToOwner s' x))"
    using i3 pre(1) by (auto simp: s')
  have c4: "\<forall>x. cidToOwner s' x = 0 \<longrightarrow> cidToMetadataInfo s' x = emptyInfo"
    using i4 nz by (simp add: s')
  have c7: "\<forall>x. cidToOwner s' x \<noteq> 0 \<longrightarrow> cid (cidToMetadataInfo s' x) = x"
    using i7 by (simp add: s')
  have c5: "\<forall>k. hashToCID s' k \<noteq> [] \<longrightarrow>
          cidToOwner s' (hashToCID s' k) \<noteq> 0 \<and> hash (cidToMetadataInfo s' (hashToCID s' k)) = k"
    using i5 nz pre(3) by (auto simp: s')
  have c6: "\<forall>x. cidToOwner s' x \<noteq> 0 \<longrightarrow> hashToCID s' (hash (cidToMetadataInfo s' x)) = x"
  proof (intro allI impI)
    fix x assume a: "cidToOwner s' x \<noteq> 0"
    show "hashToCID s' (hash (cidToMetadataInfo s' x)) = x"
    proof (cases "x = c")
      case True then show ?thesis by (simp add: s')
    next
      case False
      with a have ax: "cidToOwner s x \<noteq> 0" by (simp add: s')
      then have "hashToCID s (hash (cidToMetadataInfo s x)) = x" "x \<noteq> []" using i6 i3 by blast+
      then have "hash (cidToMetadataInfo s x) \<noteq> h" using pre(4) by auto
      then show ?thesis using False i6[OF ax] by (simp add: s')
    qed
  qed
  show ?thesis unfolding registry_inv_def using c1 c2 c3 c4 c5 c6 c7 by blast
qed

lemma registry_inv_remove:
  assumes inv: "registry_inv s" and nz: "sender \<noteq> 0"
    and ex: "removeMetadata sender c s = Inr s'"
  shows "registry_inv s'"
proof -
  from ex have pre: "cidToOwner s c = sender"
    by (auto simp: removeMetadata_def split: if_splits)
  define h where "h = hash (cidToMetadataInfo s c)"
  define xs where "xs = userMetadataCIDs s sender"
  from ex pre have s': "s' = s\<lparr>userMetadataCIDs := (userMetadataCIDs s)(sender := removeLoop 0 c xs),
                hashToCID := (hashToCID s)(h := []),
                cidToOwner := (cidToOwner s)(c := 0),
                cidToMetadataInfo := (cidToMetadataInfo s)(c := emptyInfo)\<rparr>"
    by (simp add: removeMetadata_def h_def xs_def Let_def)
  from inv have
    i1: "\<And>u x. x \<in> set (userMetadataCIDs s u) \<Longrightarrow> cidToOwner s x = u \<and> u \<noteq> 0" and
    i2: "\<And>u. distinct (userMetadataCIDs s u)" and
    i3: "\<And>x. cidToOwner s x \<noteq> 0 \<Longrightarrow> x \<noteq> [] \<and> x \<in> set (userMetadataCIDs s (cidToOwner s x))" and
    i4: "\<And>x. cidToOwner s x = 0 \<Longrightarrow> cidToMetadataInfo s x = emptyInfo" and
    i7: "\<And>x. cidToOwner s x \<noteq> 0 \<Longrightarrow> cid (cidToMetadataInfo s x) = x" and
    i5: "\<And>k. hashToCID s k \<noteq> [] \<Longrightarrow>
          cidToOwner s (hashToCID s k) \<noteq> 0 \<and> hash (cidToMetadataInfo s (hashToCID s k)) = k" and
    i6: "\<And>x. cidToOwner s x \<noteq> 0 \<Longrightarrow> hashToCID s (hash (cidToMetadataInfo s x)) = x"
    unfolding registry_inv_def by blast+
  have cin: "c \<in> set xs" using i3[of c] pre nz by (simp add: xs_def)
  have dxs: "distinct xs" using i2 by (simp add: xs_def)
  note rl = removeLoop_set[OF dxs cin]
  have c1: "\<forall>u x. x \<in> set (userMetadataCIDs s' u) \<longrightarrow> cidToOwner s' x = u \<and> u \<noteq> 0"
    using i1 rl(1) pre by (auto simp: s' xs_def)
  have c2: "\<forall>u. distinct (userMetadataCIDs s' u)"
    using i2 rl(2) by (simp add: s')
  have c3: "\<forall>x. cidToOwner s' x \<noteq> 0 \<longrightarrow> x \<noteq> [] \<and> x \<in> set (userMetadataCIDs s' (cidToOwner s' x))"
    using i3 rl(1) by (auto simp: s' xs_def)
  have c4: "\<forall>x. cidToOwner s' x = 0 \<longrightarrow> cidToMetadataInfo s' x = emptyInfo"
    using i4 by (simp add: s')
  have c7: "\<forall>x. cidToOwner s' x \<noteq> 0 \<longrightarrow> cid (cidToMetadataInfo s' x) = x"
    using i7 by (simp add: s')
  have c5: "\<forall>k. hashToCID s' k \<noteq> [] \<longrightarrow>
          cidToOwner s' (hashToCID s' k) \<noteq> 0 \<and> hash (cidToMetadataInfo s' (hashToCID s' k)) = k"
  proof (intro allI impI)
    fix k assume a: "hashToCID s' k \<noteq> []"
    then have kh: "k \<noteq> h" and b: "hashToCID s k \<noteq> []" by (auto simp: s' split: if_splits)
    from i5[OF b] have o: "cidToOwner s (hashToCID s k) \<noteq> 0"
      and e: "hash (cidToMetadataInfo s (hashToCID s k)) = k" by blast+
    from e kh have "hashToCID s k \<noteq> c" by (auto simp: h_def)
    then show "cidToOwner s' (hashToCID s' k) \<noteq> 0 \<and> hash (cidToMetadataInfo s' (hashToCID s' k)) = k"
      using o e kh by (simp add: s')
  qed
  have c6: "\<forall>x. cidToOwner s' x \<noteq> 0 \<longrightarrow> hashToCID s' (hash (cidToMetadataInfo s' x)) = x"
  proof (intro allI impI)
    fix x assume a: "cidToOwner s' x \<noteq> 0"
    then have xc: "x \<noteq> c" and ax: "cidToOwner s x \<noteq> 0" by (auto simp: s' split: if_splits)
    have "hashToCID s h = c" using i6[of c] pre nz by (simp add: h_def)
    with i6[OF ax] xc have "hash (cidToMetadataInfo s x) \<noteq> h" by auto
    then show "hashToCID s' (hash (cidToMetadataInfo s' x)) = x"
      using xc i6[OF ax] by (simp add: s')
  qed
  show ?thesis unfolding registry_inv_def using c1 c2 c3 c4 c5 c6 c7 by blast
qed

lemma registry_inv_update:
  assumes inv: "registry_inv s" and nz: "sender \<noteq> 0"
    and ex: "updateMetadata sender now oldCid newCid h name uri s = Inr s'"
  shows "registry_inv s'"
proof -
  from ex have pre: "cidToOwner s oldCid = sender" "newCid \<noteq> []" "h \<noteq> []"
      "cidToOwner s newCid = 0" "hashToCID s h = []"
    by (auto simp: updateMetadata_def split: if_splits)
  define oldHash where "oldHash = hash (cidToMetadataInfo s oldCid)"
  define xs where "xs = userMetadataCIDs s sender"
  from ex pre have s': "s' = s\<lparr>userMetadataCIDs := (userMetadataCIDs s)
                    (sender := replaceLoop 0 oldCid newCid xs),
                hashToCID := (hashToCID s)(oldHash := [], h := newCid),
                cidToOwner := (cidToOwner s)(oldCid := 0, newCid := sender),
                cidToMetadataInfo := (cidToMetadataInfo s)
                    (oldCid := emptyInfo,
                     newCid := \<lparr>cid = newCid, hash = h, timestamp = now,
                                 nftName = name, imageURI = uri\<rparr>)\<rparr>"
    by (simp add: updateMetadata_def oldHash_def xs_def Let_def)
  from inv have
    i1: "\<And>u x. x \<in> set (userMetadataCIDs s u) \<Longrightarrow> cidToOwner s x = u \<and> u \<noteq> 0" and
    i2: "\<And>u. distinct (userMetadataCIDs s u)" and
    i3: "\<And>x. cidToOwner s x \<noteq> 0 \<Longrightarrow> x \<noteq> [] \<and> x \<in> set (userMetadataCIDs s (cidToOwner s x))" and
    i4: "\<And>x. cidToOwner s x = 0 \<Longrightarrow> cidToMetadataInfo s x = emptyInfo" and
    i7: "\<And>x. cidToOwner s x \<noteq> 0 \<Longrightarrow> cid (cidToMetadataInfo s x) = x" and
    i5: "\<And>k. hashToCID s k \<noteq> [] \<Longrightarrow>
          cidToOwner s (hashToCID s k) \<noteq> 0 \<and> hash (cidToMetadataInfo s (hashToCID s k)) = k" and
    i6: "\<And>x. cidToOwner s x \<noteq> 0 \<Longrightarrow> hashToCID s (hash (cidToMetadataInfo s x)) = x"
    unfolding registry_inv_def by blast+
  have ne: "newCid \<noteq> oldCid" using pre nz by auto
  have oin: "oldCid \<in> set xs" using i3[of oldCid] pre nz by (simp add: xs_def)
  have nin: "\<And>u. newCid \<notin> set (userMetadataCIDs s u)" using i1 pre(4) by blast
  have dxs: "distinct xs" using i2 by (simp add: xs_def)
  note rl = replaceLoop_set[OF dxs oin nin[of sender, folded xs_def]]
  have c1: "\<forall>u x. x \<in> set (userMetadataCIDs s' u) \<longrightarrow> cidToOwner s' x = u \<and> u \<noteq> 0"
    using i1 rl(1) nz ne nin pre(1) by (auto simp: s' xs_def)
  have c2: "\<forall>u. distinct (userMetadataCIDs s' u)"
    using i2 rl(2) by (simp add: s')
  have c3: "\<forall>x. cidToOwner s' x \<noteq> 0 \<longrightarrow> x \<noteq> [] \<and> x \<in> set (userMetadataCIDs s' (cidToOwner s' x))"
    using i3 rl(1) pre(2) by (auto simp: s' xs_def)
  have c4: "\<forall>x. cidToOwner s' x = 0 \<longrightarrow> cidToMetadataInfo s' x = emptyInfo"
    using i4 nz by (simp add: s')
  have c7: "\<forall>x. cidToOwner s' x \<noteq> 0 \<longrightarrow> cid (cidToMetadataInfo s' x) = x"
    using i7 by (simp add: s')
  have ho: "hashToCID s oldHash = oldCid" using i6[of oldCid] pre nz by (simp add: oldHash_def)
  have c5: "\<forall>k. hashToCID s' k \<noteq> [] \<longrightarrow>
          cidToOwner s' (hashToCID s' k) \<noteq> 0 \<and> hash (cidToMetadataInfo s' (hashToCID s' k)) = k"
  proof (intro allI impI)
    fix k assume a: "hashToCID s' k \<noteq> []"
    show "cidToOwner s' (hashToCID s' k) \<noteq> 0 \<and> hash (cidToMetadataInfo s' (hashToCID s' k)) = k"
    proof (cases "k = h")
      case True then show ?thesis using nz by (simp add: s')
    next
      case False
      with a have ko: "k \<noteq> oldHash" and b: "hashToCID s k \<noteq> []" by (auto simp: s' split: if_splits)
      from i5[OF b] have o: "cidToOwner s (hashToCID s k) \<noteq> 0"
        and e: "hash (cidToMetadataInfo s (hashToCID s k)) = k" by blast+
      from e ko have "hashToCID s k \<noteq> oldCid" by (auto simp: oldHash_def)
      moreover from o pre(4) have "hashToCID s k \<noteq> newCid" by auto
      ultimately show ?thesis using o e ko False by (simp add: s')
    qed
  qed
  have c6: "\<forall>x. cidToOwner s' x \<noteq> 0 \<longrightarrow> hashToCID s' (hash (cidToMetadataInfo s' x)) = x"
  proof (intro allI impI)
    fix x assume a: "cidToOwner s' x \<noteq> 0"
    show "hashToCID s' (hash (cidToMetadataInfo s' x)) = x"
    proof (cases "x = newCid")
      case True then show ?thesis by (simp add: s')
    next
      case False
      with a have xo: "x \<noteq> oldCid" and ax: "cidToOwner s x \<noteq> 0" by (auto simp: s' split: if_splits)
      from i6[OF ax] xo ho have n1: "hash (cidToMetadataInfo s x) \<noteq> oldHash" by auto
      from i6[OF ax] i3[OF ax] pre(5) have n2: "hash (cidToMetadataInfo s x) \<noteq> h" by auto
      show ?thesis using False xo n1 n2 i6[OF ax] by (simp add: s')
    qed
  qed
  show ?thesis unfolding registry_inv_def using c1 c2 c3 c4 c5 c6 c7 by blast
qed

lemma reachable_inv: "reachable s \<Longrightarrow> registry_inv s"
proof (induction rule: reachable.induct)
  case reachable_init
  show ?case by (rule registry_inv_initial)
next
  case (reachable_step s t s')
  obtain sender now cl where t: "t = Tx sender now cl" by (cases t)
  with reachable_step have nz: "sender \<noteq> 0" by simp
  show ?case
  proof (cases cl)
    case (StoreMetadata c h name uri)
    with reachable_step t nz show ?thesis by (auto intro: registry_inv_store)
  next
    case (UpdateMetadata oldCid newCid h name uri)
    with reachable_step t nz show ?thesis by (auto intro: registry_inv_update)
  next
    case (RemoveMetadata c)
    with reachable_step t nz show ?thesis by (auto intro: registry_inv_remove)
  qed
qed

section \<open>Running transactions\<close>

lemma distinct_count_list_one: "distinct xs \<Longrightarrow> x \<in> set xs \<Longrightarrow> count_list xs x = 1"
  by (induction xs) auto

lemma reachable_foldl:
  "reachable s \<Longrightarrow> (\<And>t. t \<in> set txs \<Longrightarrow> tx_sender t \<noteq> 0) \<Longrightarrow> reachable (foldl transact s txs)"
proof (induction txs arbitrary: s)
  case Nil
  then show ?case by simp
next
  case (Cons t txs)
  have "reachable (transact s t)"
  proof (cases "execute t s")
    case (Inl e)
    with Cons.prems(1) show ?thesis by (simp add: transact_def)
  next
    case (Inr s')
    moreover have "tx_sender t \<noteq> 0" using Cons.prems(2) by simp
    ultimately have "reachable s'" using Cons.prems(1) by (blast intro: reachable_step)
    with Inr show ?thesis by (simp add: transact_def)
  qed
  with Cons show ?case by simp
qed

lemma reachable_ledger:
  "(\<And>t. t \<in> set txs \<Longrightarrow> tx_sender t \<noteq> 0) \<Longrightarrow> reachable (ledger txs)"
  unfolding ledger_def by (rule reachable_foldl[OF reachable_init])

lemma transact_success: "execute t s = Inr s' \<Longrightarrow> transact s t = s'"
  by (simp add: transact_def)

lemma ledger_snoc: "ledger (txs @ [t]) = transact (ledger txs) t"
  by (simp add: ledger_def)

lemmas run_simps =
  ledger_def transact_def storeMetadata_def updateMetadata_def removeMetadata_def
  initial_storage_def emptyInfo_def Let_def
  getCIDByHash_def getUserMetadataCIDs_def getMetadataOwner_def getMetadataInfo_def
  verifyMetadata_def

section \<open>The claims about the registry\<close>

text \<open>
  Claim C1. In every storage reachable from the deployed contract by successful
  \<open>storeMetadata\<close>, \<open>updateMetadata\<close> and \<open>removeMetadata\<close> transactions, an
  identifier has a stored record exactly when it has a non-zero owner, and then it occurs
  exactly once in \<open>userMetadataCIDs\<close> of that owner. \<open>hashToCID\<close> is the inverse of the
  stored hashes: for an identifier \<open>c\<close> (a non-empty string; the empty string is what the
  mapping returns for an absent hash) \<open>hashToCID h = c\<close> holds iff \<open>c\<close> has an owner and its
  record has the hash \<open>h\<close>, and \<open>hashToCID h\<close> is empty iff no owned identifier has the
  hash \<open>h\<close>. Hence two owned identifiers with the same hash are equal.
\<close>

theorem registry_indices_consistent:
  assumes "reachable s"
  shows "(cidToMetadataInfo s c \<noteq> emptyInfo \<longleftrightarrow> cidToOwner s c \<noteq> 0) \<and>
         (cidToOwner s c \<noteq> 0 \<longrightarrow> count_list (userMetadataCIDs s (cidToOwner s c)) c = 1) \<and>
         (c \<noteq> [] \<longrightarrow>
            (hashToCID s h = c \<longleftrightarrow> cidToOwner s c \<noteq> 0 \<and> hash (cidToMetadataInfo s c) = h)) \<and>
         (hashToCID s h = [] \<longleftrightarrow>
            \<not> (\<exists>x. cidToOwner s x \<noteq> 0 \<and> hash (cidToMetadataInfo s x) = h)) \<and>
         (cidToOwner s c \<noteq> 0 \<and> cidToOwner s c' \<noteq> 0 \<and>
            hash (cidToMetadataInfo s c) = hash (cidToMetadataInfo s c') \<longrightarrow> c = c')"
proof -
  from reachable_inv[OF assms] have
    i2: "\<And>u. distinct (userMetadataCIDs s u)" and
    i3: "\<And>x. cidToOwner s x \<noteq> 0 \<Longrightarrow> x \<noteq> [] \<and> x \<in> set (userMetadataCIDs s (cidToOwner s x))" and
    i4: "\<And>x. cidToOwner s x = 0 \<Longrightarrow> cidToMetadataInfo s x = emptyInfo" and
    i7: "\<And>x. cidToOwner s x \<noteq> 0 \<Longrightarrow> cid (cidToMetadataInfo s x) = x" and
    i5: "\<And>k. hashToCID s k \<noteq> [] \<Longrightarrow>
          cidToOwner s (hashToCID s k) \<noteq> 0 \<and> hash (cidToMetadataInfo s (hashToCID s k)) = k" and
    i6: "\<And>x. cidToOwner s x \<noteq> 0 \<Longrightarrow> hashToCID s (hash (cidToMetadataInfo s x)) = x"
    unfolding registry_inv_def by blast+
  have a: "cidToMetadataInfo s c \<noteq> emptyInfo \<longleftrightarrow> cidToOwner s c \<noteq> 0"
  proof
    assume "cidToMetadataInfo s c \<noteq> emptyInfo"
    then show "cidToOwner s c \<noteq> 0" using i4 by blast
  next
    assume o: "cidToOwner s c \<noteq> 0"
    then have "cid (cidToMetadataInfo s c) \<noteq> []" using i7 i3 by simp
    then show "cidToMetadataInfo s c \<noteq> emptyInfo" by (auto simp: emptyInfo_def)
  qed
  have b: "cidToOwner s c \<noteq> 0 \<longrightarrow> count_list (userMetadataCIDs s (cidToOwner s c)) c = 1"
    using i2 i3 by (simp add: distinct_count_list_one)
  have c: "c \<noteq> [] \<longrightarrow>
              (hashToCID s h = c \<longleftrightarrow> cidToOwner s c \<noteq> 0 \<and> hash (cidToMetadataInfo s c) = h)"
    using i5 i6 by blast
  have d: "hashToCID s h = [] \<longleftrightarrow>
              \<not> (\<exists>x. cidToOwner s x \<noteq> 0 \<and> hash (cidToMetadataInfo s x) = h)"
    using i5 i6 i3 by metis
  have e: "cidToOwner s c \<noteq> 0 \<and> cidToOwner s c' \<noteq> 0 \<and>
              hash (cidToMetadataInfo s c) = hash (cidToMetadataInfo s c') \<longrightarrow> c = c'"
    using i6 by metis
  from a b c d e show ?thesis by blast
qed

theorem registry_indices_consistent_witness:
  "reachable (ledger [Tx 1 100 (StoreMetadata ''bafyAAA'' ''6f2c'' ''demo'' ''bafyIMG''),
                      Tx 2 101 (StoreMetadata ''bafyBBB'' ''77aa'' ''other'' ''bafyIMG'')]) \<and>
   cidToOwner (ledger [Tx 1 100 (StoreMetadata ''bafyAAA'' ''6f2c'' ''demo'' ''bafyIMG''),
                      Tx 2 101 (StoreMetadata ''bafyBBB'' ''77aa'' ''other'' ''bafyIMG'')]) ''bafyBBB'' = 2 \<and>
   count_list (userMetadataCIDs (ledger [Tx 1 100 (StoreMetadata ''bafyAAA'' ''6f2c'' ''demo'' ''bafyIMG''),
                      Tx 2 101 (StoreMetadata ''bafyBBB'' ''77aa'' ''other'' ''bafyIMG'')]) 2) ''bafyBBB'' = 1 \<and>
   hashToCID (ledger [Tx 1 100 (StoreMetadata ''bafyAAA'' ''6f2c'' ''demo'' ''bafyIMG''),
                      Tx 2 101 (StoreMetadata ''bafyBBB'' ''77aa'' ''other'' ''bafyIMG'')]) ''77aa'' = ''bafyBBB''"
proof -
  let ?s = "ledger [Tx 1 100 (StoreMetadata ''bafyAAA'' ''6f2c'' ''demo'' ''bafyIMG''),
                    Tx 2 101 (StoreMetadata ''bafyBBB'' ''77aa'' ''other'' ''bafyIMG'')]"
  have r: "reachable ?s" by (rule reachable_ledger) auto
  have o: "cidToOwner ?s ''bafyBBB'' = 2" by (simp add: run_simps)
  have h: "hash (cidToMetadataInfo ?s ''bafyBBB'') = ''77aa''" by (simp add: run_simps)
  show ?thesis
    using registry_indices_consistent[OF r, of "''bafyBBB''" "''77aa''" "''bafyBBB''"] r o h
    by simp
qed

text \<open>
  Claim C2. For a non-empty identifier \<open>c\<close> without owner and a non-empty hash \<open>h\<close> that
  \<open>hashToCID\<close> does not hold, \<open>storeMetadata\<close> called by a sender succeeds, and in the
  resulting storage \<open>getCIDByHash h\<close> is \<open>c\<close>, \<open>getMetadataInfo c\<close> returns a record with
  hash \<open>h\<close> and the timestamp of the block, \<open>getMetadataOwner c\<close> is the sender, and the
  sender's array is the former array with \<open>c\<close> appended at its end.
\<close>

theorem storeMetadata_registers:
  assumes "c \<noteq> []" and "h \<noteq> []" and "cidToOwner s c = 0" and "hashToCID s h = []"
    and "sender \<noteq> 0"
  shows "\<exists>s'. storeMetadata sender now c h name uri s = Inr s' \<and>
              getCIDByHash h s' = c \<and>
              (\<exists>r. getMetadataInfo c s' = Inr r \<and> hash r = h \<and> timestamp r = now) \<and>
              getMetadataOwner c s' = sender \<and>
              getUserMetadataCIDs sender s' = getUserMetadataCIDs sender s @ [c]"
  using assms
  by (simp add: storeMetadata_def getCIDByHash_def getMetadataInfo_def getMetadataOwner_def
        getUserMetadataCIDs_def)

theorem storeMetadata_registers_witness:
  "''bafyAAA'' \<noteq> [] \<and> ''6f2c'' \<noteq> [] \<and> cidToOwner initial_storage ''bafyAAA'' = 0 \<and>
   hashToCID initial_storage ''6f2c'' = [] \<and> (1 :: address) \<noteq> 0 \<and>
   getCIDByHash ''6f2c'' (ledger [Tx 1 100 (StoreMetadata ''bafyAAA'' ''6f2c'' ''demo'' ''bafyIMG'')])
     = ''bafyAAA'' \<and>
   getUserMetadataCIDs 1 (ledger [Tx 1 100 (StoreMetadata ''bafyAAA'' ''6f2c'' ''demo'' ''bafyIMG'')])
     = [''bafyAAA'']"
proof -
  have p: "''bafyAAA'' \<noteq> []" "''6f2c'' \<noteq> []" "cidToOwner initial_storage ''bafyAAA'' = 0"
    "hashToCID initial_storage ''6f2c'' = []" "(1 :: address) \<noteq> 0"
    by (simp_all add: initial_storage_def)
  from storeMetadata_registers[OF p, of 100 "''demo''" "''bafyIMG''"]
  obtain s' where s': "storeMetadata 1 100 ''bafyAAA'' ''6f2c'' ''demo'' ''bafyIMG'' initial_storage = Inr s'"
    "getCIDByHash ''6f2c'' s' = ''bafyAAA''"
    "getUserMetadataCIDs 1 s' = getUserMetadataCIDs 1 initial_storage @ [''bafyAAA'']"
    by blast
  have l: "ledger [Tx 1 100 (StoreMetadata ''bafyAAA'' ''6f2c'' ''demo'' ''bafyIMG'')] = s'"
    using s'(1) by (simp add: ledger_def transact_def)
  have e: "getUserMetadataCIDs 1 initial_storage = []"
    by (simp add: getUserMetadataCIDs_def initial_storage_def)
  show ?thesis using p s'(2,3) l e by simp
qed

text \<open>
  Claim C3. As stated, the claim asks for a conflict whenever the identifier is already
  registered, also when the hash is empty; the contract checks emptiness first.
  The counterexample registers \<open>bafyAAA\<close> and stores it again with an empty hash: the
  revert reason is the validation error of the hash.
\<close>

theorem storeMetadata_rejects_counterexample:
  "cidToOwner (ledger [Tx 1 100 (StoreMetadata ''bafyAAA'' ''6f2c'' ''demo'' ''bafyIMG'')]) ''bafyAAA'' \<noteq> 0 \<and>
   storeMetadata 2 101 ''bafyAAA'' [] ''demo'' ''bafyIMG''
     (ledger [Tx 1 100 (StoreMetadata ''bafyAAA'' ''6f2c'' ''demo'' ''bafyIMG'')])
     = Inl Hash_cannot_be_empty \<and>
   kind_of Hash_cannot_be_empty \<noteq> ConflictError"
  by (simp add: run_simps)

text \<open>
  Claim C3, amended. \<open>storeMetadata\<close> reverts whenever the identifier or the hash is empty,
  the identifier already has an owner, or the hash is already in \<open>hashToCID\<close>. The revert is
  a validation error when the identifier or the hash is empty, and a conflict otherwise. In
  every such case the transaction leaves the storage as it was.
\<close>

theorem storeMetadata_rejects:
  assumes "c = [] \<or> h = [] \<or> cidToOwner s c \<noteq> 0 \<or> hashToCID s h \<noteq> []"
  shows "\<exists>e. storeMetadata sender now c h name uri s = Inl e \<and>
             kind_of e = (if c = [] \<or> h = [] then ValidationError else ConflictError) \<and>
             transact s (Tx sender now (StoreMetadata c h name uri)) = s"
  using assms by (auto simp: storeMetadata_def transact_def)

theorem storeMetadata_rejects_witness:
  "(''bafyAAA'' = [] \<or> ''77aa'' = [] \<or>
    cidToOwner (ledger [Tx 1 100 (StoreMetadata ''bafyAAA'' ''6f2c'' ''demo'' ''bafyIMG'')]) ''bafyAAA'' \<noteq> 0 \<or>
    hashToCID (ledger [Tx 1 100 (StoreMetadata ''bafyAAA'' ''6f2c'' ''demo'' ''bafyIMG'')]) ''77aa'' \<noteq> []) \<and>
   storeMetadata 2 101 ''bafyAAA'' ''77aa'' ''demo'' ''bafyIMG''
     (ledger [Tx 1 100 (StoreMetadata ''bafyAAA'' ''6f2c'' ''demo'' ''bafyIMG'')])
     = Inl CID_already_registered \<and>
   transact (ledger [Tx 1 100 (StoreMetadata ''bafyAAA'' ''6f2c'' ''demo'' ''bafyIMG'')])
     (Tx 2 101 (StoreMetadata ''bafyAAA'' ''77aa'' ''demo'' ''bafyIMG''))
     = ledger [Tx 1 100 (StoreMetadata ''bafyAAA'' ''6f2c'' ''demo'' ''bafyIMG'')]"
proof -
  let ?s = "ledger [Tx 1 100 (StoreMetadata ''bafyAAA'' ''6f2c'' ''demo'' ''bafyIMG'')]"
  have o: "cidToOwner ?s ''bafyAAA'' \<noteq> 0" by (simp add: run_simps)
  then have p: "''bafyAAA'' = [] \<or> ''77aa'' = [] \<or> cidToOwner ?s ''bafyAAA'' \<noteq> 0 \<or>
    hashToCID ?s ''77aa'' \<noteq> []" by blast
  have e: "storeMetadata 2 101 ''bafyAAA'' ''77aa'' ''demo'' ''bafyIMG'' ?s = Inl CID_already_registered"
    using o by (simp add: storeMetadata_def)
  from storeMetadata_rejects[OF p, of 2 101 "''demo''" "''bafyIMG''"]
  have "transact ?s (Tx 2 101 (StoreMetadata ''bafyAAA'' ''77aa'' ''demo'' ''bafyIMG'')) = ?s"
    by blast
  with p e show ?thesis by blast
qed

text \<open>
  Claim C4. The contract has no exception for a new identifier equal to the old one: the
  owner of \<open>bafyAAA\<close> updating it to \<open>bafyAAA\<close> with a fresh non-empty hash is refused
  with the reason of an already registered new identifier.
\<close>

theorem updateMetadata_same_identifier_counterexample:
  "cidToOwner (ledger [Tx 1 100 (StoreMetadata ''bafyAAA'' ''6f2c'' ''demo'' ''bafyIMG'')]) ''bafyAAA'' = 1 \<and>
   hashToCID (ledger [Tx 1 100 (StoreMetadata ''bafyAAA'' ''6f2c'' ''demo'' ''bafyIMG'')]) ''77aa'' = [] \<and>
   updateMetadata 1 101 ''bafyAAA'' ''bafyAAA'' ''77aa'' ''demo'' ''bafyIMG''
     (ledger [Tx 1 100 (StoreMetadata ''bafyAAA'' ''6f2c'' ''demo'' ''bafyIMG'')])
     = Inl New_CID_already_registered \<and>
   kind_of New_CID_already_registered = ConflictError"
  by (simp add: run_simps)

text \<open>
  Claim C4, amended. In every reachable storage, \<open>updateMetadata\<close> called by the owner of
  \<open>oldCid\<close> with the new identifier equal to \<open>oldCid\<close> and a non-empty hash absent from
  \<open>hashToCID\<close> reverts with the conflict of an already registered new identifier, and the
  storage stays as it was.
\<close>

theorem updateMetadata_same_identifier:
  assumes "reachable s" and "sender \<noteq> 0" and "cidToOwner s oldCid = sender"
    and "h \<noteq> []" and "hashToCID s h = []"
  shows "updateMetadata sender now oldCid oldCid h name uri s = Inl New_CID_already_registered \<and>
         kind_of New_CID_already_registered = ConflictError \<and>
         transact s (Tx sender now (UpdateMetadata oldCid oldCid h name uri)) = s"
proof -
  from reachable_inv[OF assms(1)] assms(2,3) have "oldCid \<noteq> []"
    unfolding registry_inv_def by blast
  with assms show ?thesis by (simp add: updateMetadata_def transact_def)
qed

theorem updateMetadata_same_identifier_witness:
  "reachable (ledger [Tx 1 100 (StoreMetadata ''bafyAAA'' ''6f2c'' ''demo'' ''bafyIMG'')]) \<and>
   (1 :: address) \<noteq> 0 \<and>
   cidToOwner (ledger [Tx 1 100 (StoreMetadata ''bafyAAA'' ''6f2c'' ''demo'' ''bafyIMG'')]) ''bafyAAA'' = 1 \<and>
   ''77aa'' \<noteq> [] \<and>
   hashToCID (ledger [Tx 1 100 (StoreMetadata ''bafyAAA'' ''6f2c'' ''demo'' ''bafyIMG'')]) ''77aa'' = [] \<and>
   transact (ledger [Tx 1 100 (StoreMetadata ''bafyAAA'' ''6f2c'' ''demo'' ''bafyIMG'')])
     (Tx 1 101 (UpdateMetadata ''bafyAAA'' ''bafyAAA'' ''77aa'' ''demo'' ''bafyIMG''))
     = ledger [Tx 1 100 (StoreMetadata ''bafyAAA'' ''6f2c'' ''demo'' ''bafyIMG'')]"
proof -
  let ?s = "ledger [Tx 1 100 (StoreMetadata ''bafyAAA'' ''6f2c'' ''demo'' ''bafyIMG'')]"
  have r: "reachable ?s" by (rule reachable_ledger) auto
  have p: "(1 :: address) \<noteq> 0" "cidToOwner ?s ''bafyAAA'' = 1" "''77aa'' \<noteq> []"
    "hashToCID ?s ''77aa'' = []"
    by (simp_all add: run_simps)
  from updateMetadata_same_identifier[OF r p, of 101 "''demo''" "''bafyIMG''"] r p
  show ?thesis by blast
qed

text \<open>
  Claim C5. After a successful \<open>updateMetadata\<close> by the owner of \<open>oldCid\<close> in a reachable
  storage, with the new identifier different from the old one: \<open>getCIDByHash\<close> of the hash
  of the old record is empty, \<open>getCIDByHash h\<close> is the new identifier, the old identifier
  has no owner and the new one is owned by the sender, the sender's array holds the new
  identifier and not the old one, and the new identifier stands at the position where the
  old one stood. The old identifier is always found in the array, so nothing is ever
  appended.
\<close>

theorem updateMetadata_moves_record:
  assumes "reachable s" and "sender \<noteq> 0" and "newCid \<noteq> oldCid"
    and "updateMetadata sender now oldCid newCid h name uri s = Inr s'"
  shows "cidToOwner s oldCid = sender \<and>
         getCIDByHash (hash (cidToMetadataInfo s oldCid)) s' = [] \<and>
         getCIDByHash h s' = newCid \<and>
         getMetadataOwner oldCid s' = 0 \<and>
         getMetadataOwner newCid s' = sender \<and>
         newCid \<in> set (getUserMetadataCIDs sender s') \<and>
         oldCid \<notin> set (getUserMetadataCIDs sender s') \<and>
         oldCid \<in> set (getUserMetadataCIDs sender s) \<and>
         (\<exists>k < length (getUserMetadataCIDs sender s).
             getUserMetadataCIDs sender s ! k = oldCid \<and>
             getUserMetadataCIDs sender s' = (getUserMetadataCIDs sender s)[k := newCid])"
proof -
  from assms(4) have pre: "cidToOwner s oldCid = sender" "newCid \<noteq> []" "h \<noteq> []"
      "cidToOwner s newCid = 0" "hashToCID s h = []"
    by (auto simp: updateMetadata_def split: if_splits)
  define oldHash where "oldHash = hash (cidToMetadataInfo s oldCid)"
  define xs where "xs = userMetadataCIDs s sender"
  from assms(4) pre have s': "s' = s\<lparr>userMetadataCIDs := (userMetadataCIDs s)
                    (sender := replaceLoop 0 oldCid newCid xs),
                hashToCID := (hashToCID s)(oldHash := [], h := newCid),
                cidToOwner := (cidToOwner s)(oldCid := 0, newCid := sender),
                cidToMetadataInfo := (cidToMetadataInfo s)
                    (oldCid := emptyInfo,
                     newCid := \<lparr>cid = newCid, hash = h, timestamp = now,
                                 nftName = name, imageURI = uri\<rparr>)\<rparr>"
    by (simp add: updateMetadata_def oldHash_def xs_def Let_def)
  from reachable_inv[OF assms(1)] have
    i1: "\<And>u x. x \<in> set (userMetadataCIDs s u) \<Longrightarrow> cidToOwner s x = u \<and> u \<noteq> 0" and
    i2: "\<And>u. distinct (userMetadataCIDs s u)" and
    i3: "\<And>x. cidToOwner s x \<noteq> 0 \<Longrightarrow> x \<noteq> [] \<and> x \<in> set (userMetadataCIDs s (cidToOwner s x))" and
    i6: "\<And>x. cidToOwner s x \<noteq> 0 \<Longrightarrow> hashToCID s (hash (cidToMetadataInfo s x)) = x"
    unfolding registry_inv_def by blast+
  have oin: "oldCid \<in> set xs" using i3[of oldCid] pre assms(2) by (simp add: xs_def)
  have nin: "newCid \<notin> set xs" using i1[of newCid sender] pre(4) assms(2) by (auto simp: xs_def)
  have dxs: "distinct xs" using i2 by (simp add: xs_def)
  note rl = replaceLoop_set[OF dxs oin nin]
  from replaceLoop_first[OF oin, of newCid] obtain k where
    k: "k < length xs" "xs ! k = oldCid" "replaceLoop 0 oldCid newCid xs = xs[k := newCid]"
    by blast
  have "hashToCID s oldHash = oldCid" "oldCid \<noteq> []"
    using i6[of oldCid] i3[of oldCid] pre(1) assms(2) by (simp_all add: oldHash_def)
  with pre(5) have hne: "oldHash \<noteq> h" by auto
  have a: "getCIDByHash (hash (cidToMetadataInfo s oldCid)) s' = []"
    using hne by (simp add: getCIDByHash_def s' oldHash_def)
  have b: "getCIDByHash h s' = newCid" by (simp add: getCIDByHash_def s')
  have c: "getMetadataOwner oldCid s' = 0" "getMetadataOwner newCid s' = sender"
    using assms(3) by (simp_all add: getMetadataOwner_def s')
  have l: "getUserMetadataCIDs sender s' = replaceLoop 0 oldCid newCid xs"
    "getUserMetadataCIDs sender s = xs"
    by (simp_all add: getUserMetadataCIDs_def s' xs_def)
  have d: "newCid \<in> set (getUserMetadataCIDs sender s')"
    "oldCid \<notin> set (getUserMetadataCIDs sender s')"
    using rl(1) assms(3) by (simp_all add: l)
  have e: "\<exists>k < length (getUserMetadataCIDs sender s).
             getUserMetadataCIDs sender s ! k = oldCid \<and>
             getUserMetadataCIDs sender s' = (getUserMetadataCIDs sender s)[k := newCid]"
    using k by (auto simp: l)
  from pre(1) a b c d oin e show ?thesis by (simp add: l(2))
qed

theorem updateMetadata_moves_record_witness:
  "reachable (ledger [Tx 1 100 (StoreMetadata ''bafyAAA'' ''6f2c'' ''demo'' ''bafyIMG'')]) \<and>
   (1 :: address) \<noteq> 0 \<and> ''bafyBBB'' \<noteq> ''bafyAAA'' \<and>
   updateMetadata 1 101 ''bafyAAA'' ''bafyBBB'' ''77aa'' ''demo'' ''bafyIMG''
     (ledger [Tx 1 100 (StoreMetadata ''bafyAAA'' ''6f2c'' ''demo'' ''bafyIMG'')])
     = Inr (ledger [Tx 1 100 (StoreMetadata ''bafyAAA'' ''6f2c'' ''demo'' ''bafyIMG''),
                    Tx 1 101 (UpdateMetadata ''bafyAAA'' ''bafyBBB'' ''77aa'' ''demo'' ''bafyIMG'')]) \<and>
   getCIDByHash ''6f2c''
     (ledger [Tx 1 100 (StoreMetadata ''bafyAAA'' ''6f2c'' ''demo'' ''bafyIMG''),
              Tx 1 101 (UpdateMetadata ''bafyAAA'' ''bafyBBB'' ''77aa'' ''demo'' ''bafyIMG'')]) = [] \<and>
   getCIDByHash ''77aa''
     (ledger [Tx 1 100 (StoreMetadata ''bafyAAA'' ''6f2c'' ''demo'' ''bafyIMG''),
              Tx 1 101 (UpdateMetadata ''bafyAAA'' ''bafyBBB'' ''77aa'' ''demo'' ''bafyIMG'')]) = ''bafyBBB'' \<and>
   getMetadataOwner ''bafyAAA''
     (ledger [Tx 1 100 (StoreMetadata ''bafyAAA'' ''6f2c'' ''demo'' ''bafyIMG''),
              Tx 1 101 (UpdateMetadata ''bafyAAA'' ''bafyBBB'' ''77aa'' ''demo'' ''bafyIMG'')]) = 0"
proof -
  let ?t1 = "Tx 1 100 (StoreMetadata ''bafyAAA'' ''6f2c'' ''demo'' ''bafyIMG'')"
  let ?t2 = "Tx 1 101 (UpdateMetadata ''bafyAAA'' ''bafyBBB'' ''77aa'' ''demo'' ''bafyIMG'')"
  have r: "reachable (ledger [?t1])" by (rule reachable_ledger) auto
  have n: "(1 :: address) \<noteq> 0" "''bafyBBB'' \<noteq> ''bafyAAA''" by simp_all
  have o: "cidToOwner (ledger [?t1]) ''bafyAAA'' = 1" "cidToOwner (ledger [?t1]) ''bafyBBB'' = 0"
    "hashToCID (ledger [?t1]) ''77aa'' = []"
    "hash (cidToMetadataInfo (ledger [?t1]) ''bafyAAA'') = ''6f2c''"
    by (simp_all add: run_simps)
  have "\<exists>s'. execute ?t2 (ledger [?t1]) = Inr s'"
    using o by (simp add: updateMetadata_def)
  then obtain s' where ex: "execute ?t2 (ledger [?t1]) = Inr s'" by blast
  have "ledger [?t1, ?t2] = transact (ledger [?t1]) ?t2"
    using ledger_snoc[of "[?t1]" ?t2] by simp
  with transact_success[OF ex] have l: "ledger [?t1, ?t2] = s'" by simp
  from ex l have u: "updateMetadata 1 101 ''bafyAAA'' ''bafyBBB'' ''77aa'' ''demo'' ''bafyIMG''
     (ledger [?t1]) = Inr (ledger [?t1, ?t2])" by simp
  from updateMetadata_moves_record[OF r n u] o(4) r n u show ?thesis by simp
qed

text \<open>
  Claim C6. In a reachable storage \<open>removeMetadata\<close> succeeds iff the sender is the owner
  of \<open>c\<close>. Otherwise it reverts with the authorization error and the storage stays as it
  was. When it succeeds, the transaction commits a storage in which \<open>getMetadataInfo c\<close>
  reverts with the not-found error, \<open>getCIDByHash\<close> of the removed record's hash is empty,
  \<open>c\<close> has no owner and no record, and the sender's array has lost \<open>c\<close> by moving its
  last element into the position of \<open>c\<close> and dropping the last element.
\<close>

theorem removeMetadata_owner_only:
  assumes "reachable s" and "sender \<noteq> 0"
  shows "(cidToOwner s c \<noteq> sender \<longrightarrow>
            removeMetadata sender c s = Inl Not_the_owner_of_this_metadata \<and>
            kind_of Not_the_owner_of_this_metadata = AuthorizationError \<and>
            transact s (Tx sender now (RemoveMetadata c)) = s) \<and>
         (cidToOwner s c = sender \<longrightarrow>
            (\<exists>s'. removeMetadata sender c s = Inr s' \<and>
                  transact s (Tx sender now (RemoveMetadata c)) = s' \<and>
                  getMetadataInfo c s' = Inl Metadata_does_not_exist \<and>
                  kind_of Metadata_does_not_exist = NotFoundError \<and>
                  getCIDByHash (hash (cidToMetadataInfo s c)) s' = [] \<and>
                  getMetadataOwner c s' = 0 \<and>
                  cidToMetadataInfo s' c = emptyInfo \<and>
                  c \<notin> set (getUserMetadataCIDs sender s') \<and>
                  (\<exists>k < length (getUserMetadataCIDs sender s).
                      getUserMetadataCIDs sender s ! k = c \<and>
                      getUserMetadataCIDs sender s' =
                        butlast ((getUserMetadataCIDs sender s)
                                   [k := getUserMetadataCIDs sender s
                                           ! (length (getUserMetadataCIDs sender s) - 1)]))))"
proof (intro conjI impI)
  assume "cidToOwner s c \<noteq> sender"
  then show "removeMetadata sender c s = Inl Not_the_owner_of_this_metadata"
    "transact s (Tx sender now (RemoveMetadata c)) = s"
    by (simp_all add: removeMetadata_def transact_def)
next
  show "kind_of Not_the_owner_of_this_metadata = AuthorizationError" by simp
next
  assume own: "cidToOwner s c = sender"
  define h where "h = hash (cidToMetadataInfo s c)"
  define xs where "xs = userMetadataCIDs s sender"
  define s' where "s' = s\<lparr>userMetadataCIDs := (userMetadataCIDs s)(sender := removeLoop 0 c xs),
                hashToCID := (hashToCID s)(h := []),
                cidToOwner := (cidToOwner s)(c := 0),
                cidToMetadataInfo := (cidToMetadataInfo s)(c := emptyInfo)\<rparr>"
  have ex: "removeMetadata sender c s = Inr s'"
    using own by (simp add: removeMetadata_def h_def xs_def s'_def Let_def)
  from reachable_inv[OF assms(1)] have
    i2: "\<And>u. distinct (userMetadataCIDs s u)" and
    i3: "\<And>x. cidToOwner s x \<noteq> 0 \<Longrightarrow> x \<noteq> [] \<and> x \<in> set (userMetadataCIDs s (cidToOwner s x))"
    unfolding registry_inv_def by blast+
  have cin: "c \<in> set xs" using i3[of c] own assms(2) by (simp add: xs_def)
  have dxs: "distinct xs" using i2 by (simp add: xs_def)
  note rl = removeLoop_set[OF dxs cin]
  from removeLoop_first[OF cin] obtain k where
    k: "k < length xs" "xs ! k = c" "removeLoop 0 c xs = butlast (xs[k := xs ! (length xs - 1)])"
    by blast
  have l: "getUserMetadataCIDs sender s' = removeLoop 0 c xs" "getUserMetadataCIDs sender s = xs"
    by (simp_all add: getUserMetadataCIDs_def s'_def xs_def)
  have a: "transact s (Tx sender now (RemoveMetadata c)) = s'"
    using ex by (simp add: transact_def)
  have b: "getMetadataInfo c s' = Inl Metadata_does_not_exist"
    "getCIDByHash (hash (cidToMetadataInfo s c)) s' = []"
    "getMetadataOwner c s' = 0" "cidToMetadataInfo s' c = emptyInfo"
    by (simp_all add: getMetadataInfo_def getCIDByHash_def getMetadataOwner_def s'_def h_def)
  have d: "c \<notin> set (getUserMetadataCIDs sender s')" using rl(1) by (simp add: l)
  have e: "\<exists>k < length (getUserMetadataCIDs sender s).
             getUserMetadataCIDs sender s ! k = c \<and>
             getUserMetadataCIDs sender s' =
               butlast ((getUserMetadataCIDs sender s)
                          [k := getUserMetadataCIDs sender s
                                  ! (length (getUserMetadataCIDs sender s) - 1)])"
    using k by (auto simp: l)
  from ex a b d e
  show "\<exists>s'. removeMetadata sender c s = Inr s' \<and>
                  transact s (Tx sender now (RemoveMetadata c)) = s' \<and>
                  getMetadataInfo c s' = Inl Metadata_does_not_exist \<and>
                  kind_of Metadata_does_not_exist = NotFoundError \<and>
                  getCIDByHash (hash (cidToMetadataInfo s c)) s' = [] \<and>
                  getMetadataOwner c s' = 0 \<and>
                  cidToMetadataInfo s' c = emptyInfo \<and>
                  c \<notin> set (getUserMetadataCIDs sender s') \<and>
                  (\<exists>k < length (getUserMetadataCIDs sender s).
                      getUserMetadataCIDs sender s ! k = c \<and>
                      getUserMetadataCIDs sender s' =
                        butlast ((getUserMetadataCIDs sender s)
                                   [k := getUserMetadataCIDs sender s
                                           ! (length (getUserMetadataCIDs sender s) - 1)]))"
    by (intro exI[of _ s']) simp
qed

theorem removeMetadata_owner_only_witness:
  "reachable (ledger [Tx 1 100 (StoreMetadata ''bafyAAA'' ''6f2c'' ''demo'' ''bafyIMG'')]) \<and>
   (2 :: address) \<noteq> 0 \<and> (1 :: address) \<noteq> 0 \<and>
   cidToOwner (ledger [Tx 1 100 (StoreMetadata ''bafyAAA'' ''6f2c'' ''demo'' ''bafyIMG'')]) ''bafyAAA'' \<noteq> 2 \<and>
   cidToOwner (ledger [Tx 1 100 (StoreMetadata ''bafyAAA'' ''6f2c'' ''demo'' ''bafyIMG'')]) ''bafyAAA'' = 1 \<and>
   removeMetadata 2 ''bafyAAA''
     (ledger [Tx 1 100 (StoreMetadata ''bafyAAA'' ''6f2c'' ''demo'' ''bafyIMG'')])
     = Inl Not_the_owner_of_this_metadata \<and>
   getMetadataInfo ''bafyAAA''
     (transact (ledger [Tx 1 100 (StoreMetadata ''bafyAAA'' ''6f2c'' ''demo'' ''bafyIMG'')])
        (Tx 1 101 (RemoveMetadata ''bafyAAA'')))
     = Inl Metadata_does_not_exist \<and>
   getCIDByHash ''6f2c''
     (transact (ledger [Tx 1 100 (StoreMetadata ''bafyAAA'' ''6f2c'' ''demo'' ''bafyIMG'')])
        (Tx 1 101 (RemoveMetadata ''bafyAAA''))) = []"
proof -
  let ?s = "ledger [Tx 1 100 (StoreMetadata ''bafyAAA'' ''6f2c'' ''demo'' ''bafyIMG'')]"
  have r: "reachable ?s" by (rule reachable_ledger) auto
  have n: "(2 :: address) \<noteq> 0" "(1 :: address) \<noteq> 0" by simp_all
  have o: "cidToOwner ?s ''bafyAAA'' \<noteq> 2" "cidToOwner ?s ''bafyAAA'' = 1"
    "hash (cidToMetadataInfo ?s ''bafyAAA'') = ''6f2c''"
    by (simp_all add: run_simps)
  from removeMetadata_owner_only[OF r n(1), of "''bafyAAA''" 101] o(1)
  have a: "removeMetadata 2 ''bafyAAA'' ?s = Inl Not_the_owner_of_this_metadata" by blast
  from removeMetadata_owner_only[OF r n(2), of "''bafyAAA''" 101] o(2)
  obtain s' where s': "transact ?s (Tx 1 101 (RemoveMetadata ''bafyAAA'')) = s'"
    "getMetadataInfo ''bafyAAA'' s' = Inl Metadata_does_not_exist"
    "getCIDByHash (hash (cidToMetadataInfo ?s ''bafyAAA'')) s' = []"
    by blast
  from r n o a s' show ?thesis by simp
qed

text \<open>
  Claim C7. \<open>verifyMetadata\<close> is a total function into the booleans, so it never reverts;
  it returns true iff \<open>getMetadataInfo c\<close> finds a record, that is \<open>c\<close> has an owner, and
  \<open>getCIDByHash h\<close> is \<open>c\<close>. In every other case it returns false.
\<close>

theorem verifyMetadata_iff:
  "verifyMetadata c h s \<longleftrightarrow> (\<exists>r. getMetadataInfo c s = Inr r) \<and> getCIDByHash h s = c"
  by (simp add: verifyMetadata_def getMetadataInfo_def getCIDByHash_def)

theorem verifyMetadata_iff_witness:
  "verifyMetadata ''bafyAAA'' ''6f2c''
     (ledger [Tx 1 100 (StoreMetadata ''bafyAAA'' ''6f2c'' ''demo'' ''bafyIMG'')]) \<and>
   \<not> verifyMetadata ''bafyAAA'' ''77aa''
     (ledger [Tx 1 100 (StoreMetadata ''bafyAAA'' ''6f2c'' ''demo'' ''bafyIMG'')]) \<and>
   \<not> verifyMetadata ''bafyBBB'' ''6f2c''
     (ledger [Tx 1 100 (StoreMetadata ''bafyAAA'' ''6f2c'' ''demo'' ''bafyIMG'')])"
proof -
  let ?s = "ledger [Tx 1 100 (StoreMetadata ''bafyAAA'' ''6f2c'' ''demo'' ''bafyIMG'')]"
  have g: "getCIDByHash ''6f2c'' ?s = ''bafyAAA''" "getCIDByHash ''77aa'' ?s = []"
    "\<exists>r. getMetadataInfo ''bafyAAA'' ?s = Inr r"
    by (simp_all add: run_simps)
  show ?thesis
    using verifyMetadata_iff[of "''bafyAAA''" "''6f2c''" ?s]
      verifyMetadata_iff[of "''bafyAAA''" "''77aa''" ?s]
      verifyMetadata_iff[of "''bafyBBB''" "''6f2c''" ?s] g
    by simp
qed

text \<open>
  Claim C8. Removal leaves no tombstone: once the owner has removed \<open>c\<close>, any sender, also
  one different from the former owner, can store \<open>c\<close> again with every non-empty hash that
  \<open>hashToCID\<close> does not hold after the removal. The call succeeds, the storage is
  reachable, and \<open>c\<close> is owned by the new sender with a record of that hash. The witness
  stores the removed identifier again under another sender with the very hash it had.
\<close>

theorem removed_identifier_stored_again:
  assumes "reachable s" and "sender \<noteq> 0" and "cidToOwner s c = sender"
    and "removeMetadata sender c s = Inr s1"
    and "h \<noteq> []" and "hashToCID s1 h = []" and "other \<noteq> 0"
  shows "\<exists>s2. storeMetadata other now c h name uri s1 = Inr s2 \<and>
              reachable s2 \<and>
              getMetadataOwner c s2 = other \<and>
              (\<exists>r. getMetadataInfo c s2 = Inr r \<and> hash r = h)"
proof -
  from reachable_inv[OF assms(1)] assms(2,3) have ne: "c \<noteq> []"
    unfolding registry_inv_def by blast
  have e1: "execute (Tx sender 0 (RemoveMetadata c)) s = Inr s1" using assms(4) by simp
  have r1: "reachable s1" by (rule reachable_step[OF assms(1) _ e1]) (simp add: assms(2))
  from assms(4) have o1: "cidToOwner s1 c = 0"
    by (auto simp: removeMetadata_def Let_def split: if_splits)
  define s2 where "s2 = s1\<lparr>userMetadataCIDs := (userMetadataCIDs s1)(other := userMetadataCIDs s1 other @ [c]),
                  hashToCID := (hashToCID s1)(h := c),
                  cidToOwner := (cidToOwner s1)(c := other),
                  cidToMetadataInfo := (cidToMetadataInfo s1)
                    (c := \<lparr>cid = c, hash = h, timestamp = now, nftName = name, imageURI = uri\<rparr>)\<rparr>"
  have ex: "storeMetadata other now c h name uri s1 = Inr s2"
    using ne assms(5,6) o1 by (simp add: storeMetadata_def s2_def)
  then have e2: "execute (Tx other now (StoreMetadata c h name uri)) s1 = Inr s2" by simp
  have r2: "reachable s2" by (rule reachable_step[OF r1 _ e2]) (simp add: assms(7))
  have "getMetadataOwner c s2 = other" "\<exists>r. getMetadataInfo c s2 = Inr r \<and> hash r = h"
    using assms(7) by (simp_all add: getMetadataOwner_def getMetadataInfo_def s2_def)
  with ex r2 show ?thesis by blast
qed


theorem removed_identifier_stored_again_witness:
  "reachable (ledger [Tx 1 100 (StoreMetadata ''bafyAAA'' ''6f2c'' ''demo'' ''bafyIMG'')]) \<and>
   (1 :: address) \<noteq> 0 \<and>
   cidToOwner (ledger [Tx 1 100 (StoreMetadata ''bafyAAA'' ''6f2c'' ''demo'' ''bafyIMG'')]) ''bafyAAA'' = 1 \<and>
   removeMetadata 1 ''bafyAAA''
     (ledger [Tx 1 100 (StoreMetadata ''bafyAAA'' ''6f2c'' ''demo'' ''bafyIMG'')])
     = Inr (ledger [Tx 1 100 (StoreMetadata ''bafyAAA'' ''6f2c'' ''demo'' ''bafyIMG''),
                    Tx 1 101 (RemoveMetadata ''bafyAAA'')]) \<and>
   ''6f2c'' \<noteq> [] \<and>
   hashToCID (ledger [Tx 1 100 (StoreMetadata ''bafyAAA'' ''6f2c'' ''demo'' ''bafyIMG''),
                      Tx 1 101 (RemoveMetadata ''bafyAAA'')]) ''6f2c'' = [] \<and>
   (2 :: address) \<noteq> 0 \<and>
   getMetadataOwner ''bafyAAA''
     (ledger [Tx 1 100 (StoreMetadata ''bafyAAA'' ''6f2c'' ''demo'' ''bafyIMG''),
              Tx 1 101 (RemoveMetadata ''bafyAAA''),
              Tx 2 102 (StoreMetadata ''bafyAAA'' ''6f2c'' ''copy'' ''bafyIMG'')]) = 2"
proof -
  let ?t1 = "Tx 1 100 (StoreMetadata ''bafyAAA'' ''6f2c'' ''demo'' ''bafyIMG'')"
  let ?t2 = "Tx 1 101 (RemoveMetadata ''bafyAAA'')"
  let ?t3 = "Tx 2 102 (StoreMetadata ''bafyAAA'' ''6f2c'' ''copy'' ''bafyIMG'')"
  have r: "reachable (ledger [?t1])" by (rule reachable_ledger) auto
  have n: "(1 :: address) \<noteq> 0" "''6f2c'' \<noteq> []" "(2 :: address) \<noteq> 0" by simp_all
  have o: "cidToOwner (ledger [?t1]) ''bafyAAA'' = 1" by (simp add: run_simps)
  have "\<exists>s'. execute ?t2 (ledger [?t1]) = Inr s'"
    using o by (simp add: removeMetadata_def Let_def)
  then obtain s1 where ex: "execute ?t2 (ledger [?t1]) = Inr s1" by blast
  have "ledger [?t1, ?t2] = transact (ledger [?t1]) ?t2"
    using ledger_snoc[of "[?t1]" ?t2] by simp
  with transact_success[OF ex] have l: "ledger [?t1, ?t2] = s1" by simp
  from ex l have u: "removeMetadata 1 ''bafyAAA'' (ledger [?t1]) = Inr (ledger [?t1, ?t2])"
    by simp
  have f: "hashToCID (ledger [?t1, ?t2]) ''6f2c'' = []"
    by (simp add: run_simps removeLoop.simps)
  from removed_identifier_stored_again[OF r n(1) o u n(2) f n(3), of 102 "''copy''" "''bafyIMG''"]
  obtain s2 where s2: "storeMetadata 2 102 ''bafyAAA'' ''6f2c'' ''copy'' ''bafyIMG'' (ledger [?t1, ?t2]) = Inr s2"
    "getMetadataOwner ''bafyAAA'' s2 = 2" by blast
  then have e3: "execute ?t3 (ledger [?t1, ?t2]) = Inr s2" by simp
  have "ledger [?t1, ?t2, ?t3] = transact (ledger [?t1, ?t2]) ?t3"
    using ledger_snoc[of "[?t1, ?t2]" ?t3] by simp
  with transact_success[OF e3] have "ledger [?t1, ?t2, ?t3] = s2" by simp
  with r n o u f s2(2) show ?thesis by simp
qed

text \<open>
  Claim C10. A successful \<open>updateMetadata\<close> writes the timestamp of its own block into the
  record of the new identifier: \<open>getMetadataInfo newCid\<close> returns a record whose
  \<open>timestamp\<close> is the time of the update, whatever the timestamp of the old record was.
  In the witness the record is stored at time 100 and updated at time 250.
\<close>

theorem updateMetadata_resets_timestamp:
  assumes "sender \<noteq> 0"
    and "updateMetadata sender now oldCid newCid h name uri s = Inr s'"
  shows "\<exists>r. getMetadataInfo newCid s' = Inr r \<and> timestamp r = now"
proof -
  from assms(2) have pre: "cidToOwner s oldCid = sender" "newCid \<noteq> []" "h \<noteq> []"
      "cidToOwner s newCid = 0" "hashToCID s h = []"
    by (auto simp: updateMetadata_def split: if_splits)
  from assms(2) pre have
    "cidToOwner s' newCid = sender" "timestamp (cidToMetadataInfo s' newCid) = now"
    by (auto simp: updateMetadata_def Let_def)
  with assms(1) show ?thesis by (simp add: getMetadataInfo_def)
qed

theorem updateMetadata_resets_timestamp_witness:
  "(1 :: address) \<noteq> 0 \<and>
   timestamp (cidToMetadataInfo
     (ledger [Tx 1 100 (StoreMetadata ''bafyAAA'' ''6f2c'' ''demo'' ''bafyIMG'')]) ''bafyAAA'') = 100 \<and>
   updateMetadata 1 250 ''bafyAAA'' ''bafyBBB'' ''77aa'' ''demo'' ''bafyIMG''
     (ledger [Tx 1 100 (StoreMetadata ''bafyAAA'' ''6f2c'' ''demo'' ''bafyIMG'')])
     = Inr (ledger [Tx 1 100 (StoreMetadata ''bafyAAA'' ''6f2c'' ''demo'' ''bafyIMG''),
                    Tx 1 250 (UpdateMetadata ''bafyAAA'' ''bafyBBB'' ''77aa'' ''demo'' ''bafyIMG'')]) \<and>
   getMetadataInfo ''bafyBBB''
     (ledger [Tx 1 100 (StoreMetadata ''bafyAAA'' ''6f2c'' ''demo'' ''bafyIMG''),
              Tx 1 250 (UpdateMetadata ''bafyAAA'' ''bafyBBB'' ''77aa'' ''demo'' ''bafyIMG'')])
     = Inr \<lparr>cid = ''bafyBBB'', hash = ''77aa'', timestamp = 250, nftName = ''demo'',
            imageURI = ''bafyIMG''\<rparr>"
proof -
  let ?t1 = "Tx 1 100 (StoreMetadata ''bafyAAA'' ''6f2c'' ''demo'' ''bafyIMG'')"
  let ?t2 = "Tx 1 250 (UpdateMetadata ''bafyAAA'' ''bafyBBB'' ''77aa'' ''demo'' ''bafyIMG'')"
  have n: "(1 :: address) \<noteq> 0" by simp
  have o: "cidToOwner (ledger [?t1]) ''bafyAAA'' = 1" "cidToOwner (ledger [?t1]) ''bafyBBB'' = 0"
    "hashToCID (ledger [?t1]) ''77aa'' = []"
    "timestamp (cidToMetadataInfo (ledger [?t1]) ''bafyAAA'') = 100"
    by (simp_all add: run_simps)
  have "\<exists>s'. execute ?t2 (ledger [?t1]) = Inr s'"
    using o by (simp add: updateMetadata_def)
  then obtain s' where ex: "execute ?t2 (ledger [?t1]) = Inr s'" by blast
  have "ledger [?t1, ?t2] = transact (ledger [?t1]) ?t2"
    using ledger_snoc[of "[?t1]" ?t2] by simp
  with transact_success[OF ex] have l: "ledger [?t1, ?t2] = s'" by simp
  from ex l have u: "updateMetadata 1 250 ''bafyAAA'' ''bafyBBB'' ''77aa'' ''demo'' ''bafyIMG''
     (ledger [?t1]) = Inr (ledger [?t1, ?t2])" by simp
  from updateMetadata_resets_timestamp[OF n u]
  obtain r where r: "getMetadataInfo ''bafyBBB'' (ledger [?t1, ?t2]) = Inr r" "timestamp r = 250"
    by blast
  have "getMetadataInfo ''bafyBBB'' (ledger [?t1, ?t2])
     = Inr \<lparr>cid = ''bafyBBB'', hash = ''77aa'', timestamp = 250, nftName = ''demo'',
            imageURI = ''bafyIMG''\<rparr>"
    using r o(1,2,3)
    by (simp add: ledger_snoc[of "[?t1]" ?t2, simplified] transact_def updateMetadata_def
          getMetadataInfo_def Let_def)
  with n o(4) u show ?thesis by simp
qed

section \<open>The claim about the upload path\<close>

text \<open>
  Claim C9. The claim expects \<open>pinned: false\<close> when the explicit pin request fails. The
  function returns the constant \<open>pinned: true\<close>: against a store that accepts the upload
  and refuses the pin, the result carries the identifier and the size, a warning is written
  to the console, and \<open>ret_pinned\<close> is true.
\<close>

theorem uploadFileToIPFS_pin_failure_counterexample:
  "ipfs_pin_add refusing_pins ''QmFile'' = Inl (Error ''pin refused'') \<and>
   uploadFileToIPFS (Some refusing_pins) ''https://ipfs.io/ipfs'' False three_bytes
     = ([Console_warn ''Warning: Could not explicitly pin the file: pin refused''],
        Inr \<lparr>ret_cid = ''QmFile'', ret_path = ''a.png'', ret_size = 3,
             ret_gateway = ''https://ipfs.io/ipfs/QmFile'', ret_pinned = True\<rparr>)"
  by (simp add: uploadFileToIPFS_def refusing_pins_def three_bytes_def)

text \<open>
  Claim C9, amended. Whenever the file can be read, the upload succeeds and the explicit pin
  request fails, \<open>uploadFileToIPFS\<close> does not throw: it writes one warning with the message
  of the pin error and returns the upload result (identifier, path, size, gateway address)
  with \<open>pinned: true\<close>.
\<close>

theorem uploadFileToIPFS_pin_failure:
  assumes "arrayBuffer file = Inr buffer"
    and "ipfs_add client (file_name file) buffer True = Inr result"
    and "ipfs_pin_add client (result_cid result) = Inl pinError"
  shows "uploadFileToIPFS (Some client) ipfsGateway isProd file
     = ([Console_warn (''Warning: Could not explicitly pin the file: '' @ message pinError)],
        Inr \<lparr>ret_cid = result_cid result, ret_path = result_path result,
             ret_size = result_size result,
             ret_gateway = ipfsGateway @ ''/'' @ result_cid result,
             ret_pinned = True\<rparr>)"
  using assms by (simp add: uploadFileToIPFS_def)

theorem uploadFileToIPFS_pin_failure_witness:
  "arrayBuffer three_bytes = Inr [1, 2, 3] \<and>
   ipfs_add refusing_pins (file_name three_bytes) [1, 2, 3] True
     = Inr \<lparr>result_cid = ''QmFile'', result_path = ''a.png'', result_size = 3\<rparr> \<and>
   ipfs_pin_add refusing_pins ''QmFile'' = Inl (Error ''pin refused'') \<and>
   snd (uploadFileToIPFS (Some refusing_pins) ''https://ipfs.io/ipfs'' True three_bytes)
     = Inr \<lparr>ret_cid = ''QmFile'', ret_path = ''a.png'', ret_size = 3,
            ret_gateway = ''https://ipfs.io/ipfs/QmFile'', ret_pinned = True\<rparr>"
proof -
  have a: "arrayBuffer three_bytes = Inr [1, 2, 3]" by (simp add: three_bytes_def)
  have b: "ipfs_add refusing_pins (file_name three_bytes) [1, 2, 3] True
     = Inr \<lparr>result_cid = ''QmFile'', result_path = ''a.png'', result_size = 3\<rparr>"
    by (simp add: refusing_pins_def three_bytes_def)
  have c: "ipfs_pin_add refusing_pins
     (result_cid \<lparr>result_cid = ''QmFile'', result_path = ''a.png'', result_size = 3\<rparr>)
     = Inl (Error ''pin refused'')"
    by (simp add: refusing_pins_def)
  from uploadFileToIPFS_pin_failure[OF a b c, of "''https://ipfs.io/ipfs''" True] a b c
  show ?thesis by simp
qed

end
